theory Spec2Isabelle
  imports Main "HOL-Library.Word"
begin

unbundle bit_operations_syntax

section \<open>Wire constants and machine types\<close>

text \<open>
  The program works on \<open>uint8_t\<close> bytes, \<open>uint16_t\<close> payload fields and \<open>int\<close>
  temporaries (32 bits). An expression such as \<open>((datatype&0x7)<<5)|(x_vector>>7)\<close> is
  evaluated in \<open>int\<close> after integer promotion and then stored into a \<open>uint8_t\<close>, which keeps
  the low eight bits. The values involved are non-negative and below \<open>2^22\<close>, so a 32-bit
  word holds them exactly.
\<close>

type_synonym u8 = "8 word"
type_synonym u16 = "16 word"
type_synonym c_int = "32 word"
type_synonym vu8 = "u8 list"

definition HEAD_BYTE :: u8 where
  "HEAD_BYTE = 0x7D"

definition ESCAPE_BYTE :: u8 where
  "ESCAPE_BYTE = 0x7E"

definition ESCAPE_MASK :: u8 where
  "ESCAPE_MASK = 0x20"

definition HZ :: int where
  "HZ = 120"

definition MAX_DATA_TYPE :: nat where
  "MAX_DATA_TYPE = 3"

text \<open>Integer promotion of a byte or a field to \<open>int\<close>, and the store into a \<open>uint8_t\<close>.\<close>

definition int_of_u8 :: "u8 \<Rightarrow> c_int" where
  "int_of_u8 b = ucast b"

definition int_of_u16 :: "u16 \<Rightarrow> c_int" where
  "int_of_u16 v = ucast v"

definition to_u8 :: "c_int \<Rightarrow> u8" where
  "to_u8 v = ucast v"

section \<open>Payload fields and the packer\<close>

text \<open>The global payload fields \<open>x_vector\<close>, \<open>y_vector\<close>, \<open>th_vector\<close>, \<open>calib_data\<close>, \<open>command\<close>.\<close>

record globals =
  x_vector :: u16
  y_vector :: u16
  th_vector :: u16
  calib_data :: u16
  command :: u16

text \<open>
  \<open>setSendDataFromROSBus(datatype, buf)\<close>: a \<open>switch\<close> on the tag that appends five, two or
  one byte with \<open>push_back\<close>; the \<open>default\<close> branch is a bare \<open>break\<close>. The function is
  \<open>void\<close> and has no failing path.
\<close>

definition setSendDataFromROSBus :: "u8 \<Rightarrow> globals \<Rightarrow> vu8 \<Rightarrow> vu8" where
  "setSendDataFromROSBus datatype g buf =
     (if datatype = 0 then
        buf @
        [to_u8 (push_bit 5 (int_of_u8 datatype AND 0x7) OR drop_bit 7 (int_of_u16 (x_vector g))),
         to_u8 (push_bit 1 (int_of_u16 (x_vector g) AND 0x7F) OR drop_bit 11 (int_of_u16 (y_vector g))),
         to_u8 (drop_bit 3 (int_of_u16 (y_vector g)) AND 0xFF),
         to_u8 (push_bit 5 (int_of_u16 (y_vector g) AND 0x3F) OR drop_bit 8 (int_of_u16 (th_vector g))),
         to_u8 (int_of_u16 (th_vector g) AND 0xFF)]
      else if datatype = 1 then
        buf @
        [to_u8 (push_bit 5 (int_of_u8 datatype AND 0x7) OR drop_bit 8 (int_of_u16 (calib_data g))),
         to_u8 (int_of_u16 (calib_data g) AND 0xFF)]
      else if datatype = 2 then
        buf @
        [to_u8 (push_bit 5 (int_of_u8 datatype AND 0x7) OR int_of_u16 (command g))]
      else buf)"

section \<open>The frame encoder\<close>

text \<open>
  The body of the \<open>for\<close> loop over \<open>send_buffer\<close> for one element: an element equal to the
  header or the escape byte is preceded on the wire by \<open>ESCAPE_BYTE\<close> and is itself
  overwritten in the buffer with its masked value; the element as it then stands is written
  and added to \<open>checksum\<close>. The result is the stored element, the bytes written, and the
  new checksum. \<open>checksum\<close> is an \<open>int\<close>; the 32-bit word is exact while the sum stays
  below \<open>2^31\<close>, that is for any buffer of fewer than eight million bytes (the packer's
  payloads have at most five).
\<close>

definition send_byte :: "u8 \<Rightarrow> c_int \<Rightarrow> u8 \<times> vu8 \<times> c_int" where
  "send_byte b checksum =
     (if b = HEAD_BYTE \<or> b = ESCAPE_BYTE then
        (b XOR ESCAPE_MASK, [ESCAPE_BYTE, b XOR ESCAPE_MASK], checksum + int_of_u8 (b XOR ESCAPE_MASK))
      else (b, [b], checksum + int_of_u8 b))"

text \<open>
  The loop itself, over the elements not yet visited; \<open>visited\<close> is the part of the buffer
  already visited (as overwritten), \<open>wire\<close> the bytes given to \<open>write\<close> so far.
\<close>

fun send_loop :: "vu8 \<Rightarrow> vu8 \<Rightarrow> vu8 \<Rightarrow> c_int \<Rightarrow> vu8 \<times> vu8 \<times> c_int" where
  "send_loop [] visited wire checksum = (visited, wire, checksum)"
| "send_loop (b # rest) visited wire checksum =
     (case send_byte b checksum of
        (b', out, checksum') \<Rightarrow> send_loop rest (visited @ [b']) (wire @ out) checksum')"

text \<open>The checksum byte and its escape (source lines 345 to 352): the bytes written.\<close>

definition send_checksum :: "c_int \<Rightarrow> vu8" where
  "send_checksum checksum =
     (let u8_checksum = to_u8 (checksum AND 0xFF) in
      if u8_checksum = HEAD_BYTE \<or> u8_checksum = ESCAPE_BYTE
      then [ESCAPE_BYTE, u8_checksum XOR ESCAPE_MASK]
      else [u8_checksum])"

text \<open>
  One frame (source lines 324 to 355): the header is written literally and seeds the
  checksum, the buffer is streamed, the checksum follows, and the buffer is erased. The
  result is the buffer and the wire afterwards.
\<close>

definition send_frame :: "vu8 \<Rightarrow> vu8 \<Rightarrow> vu8 \<times> vu8" where
  "send_frame send_buffer wire =
     (case send_loop send_buffer [] (wire @ [HEAD_BYTE]) (int_of_u8 HEAD_BYTE) of
        (buffer', wire', checksum) \<Rightarrow> ([], wire' @ send_checksum checksum))"

text \<open>The bytes one frame puts on the wire for a given payload.\<close>

definition encodeFrame :: "vu8 \<Rightarrow> vu8" where
  "encodeFrame payload = snd (send_frame payload [])"

section \<open>The scheduler\<close>

text \<open>
  A reading of the clock by \<open>gettimeofday\<close>: whole seconds, and microseconds within the
  second.
\<close>

record timeval =
  tv_sec :: int
  tv_usec :: int

text \<open>
  \<open>setParameterFromCommandLine\<close>. \<open>args\<close> holds what \<open>atoi\<close> returns for \<open>argv[1]\<close>,
  \<open>argv[2]\<close>, ..., so \<open>argc\<close> is \<open>length args + 1\<close>. The result is what the function leaves
  in \<open>hz\<close>, in the global \<open>loop_length\<close> and in the global \<open>loop_count_enable\<close>.
\<close>

record params =
  hz :: int
  loop_length :: int
  loop_count_enable :: bool

definition setParameterFromCommandLine :: "int list \<Rightarrow> params" where
  "setParameterFromCommandLine args =
     (let hz1 = (if 1 \<le> length args
                 then (if args ! 0 \<le> 0 \<or> 100000 \<le> args ! 0 then HZ else args ! 0)
                 else HZ)
      in if 2 \<le> length args
         then (if args ! 1 \<le> 0
               then \<lparr>hz = hz1, loop_length = hz1, loop_count_enable = False\<rparr>
               else \<lparr>hz = hz1, loop_length = args ! 1, loop_count_enable = True\<rparr>)
         else \<lparr>hz = hz1, loop_length = hz1, loop_count_enable = False\<rparr>)"

text \<open>
  \<open>microsecond = (int)(1000000.0f/hz)\<close>. \<open>hz\<close> lies between 1 and 99999 here. The
  single-precision quotient is within \<open>2^-24\<close> relative of the exact one, below one part in
  \<open>hz\<close>, so it never reaches the next integer, and truncating it gives the integer
  quotient.
\<close>

definition microsecond :: "params \<Rightarrow> int" where
  "microsecond p = 1000000 div hz p"

text \<open>
  \<open>createRandomNumber(min, max)\<close>: \<open>min\<close> when the bounds agree, otherwise a value of the
  uniform distribution on the interval between them (the bounds swapped when out of order).
  \<open>draw\<close> stands for the random device: it picks the value inside the interval.
\<close>

definition createRandomNumber :: "int \<Rightarrow> int \<Rightarrow> nat \<Rightarrow> int" where
  "createRandomNumber min_v max_v draw =
     (if min_v = max_v then min_v
      else if min_v > max_v then max_v + int draw mod (min_v - max_v + 1)
      else min_v + int draw mod (max_v - min_v + 1))"

text \<open>
  What the outside world supplies during one pass of the \<open>while\<close> loop: the five random
  draws of the three callbacks and the two clock readings.
\<close>

record tick_env =
  draw_x :: nat
  draw_y :: nat
  draw_th :: nat
  draw_calib :: nat
  draw_command :: nat
  tv_start :: timeval
  tv_end :: timeval

text \<open>
  The callbacks store the random numbers into the \<open>uint16_t\<close> globals;
  \<open>pow(2,12)-1\<close>, \<open>pow(2,13)-1\<close> and \<open>pow(2,5)-1\<close> are 4095, 8191 and 31. \<open>callback\<close> is
  the \<open>switch(i)\<close> of the loop body.
\<close>

definition vectorCallback :: "tick_env \<Rightarrow> globals \<Rightarrow> globals" where
  "vectorCallback e g =
     g\<lparr>x_vector := of_int (createRandomNumber 0 4095 (draw_x e)),
       y_vector := of_int (createRandomNumber 0 4095 (draw_y e)),
       th_vector := of_int (createRandomNumber 0 4095 (draw_th e))\<rparr>"

definition visionCallback :: "tick_env \<Rightarrow> globals \<Rightarrow> globals" where
  "visionCallback e g = g\<lparr>calib_data := of_int (createRandomNumber 0 8191 (draw_calib e))\<rparr>"

definition kickerCallback :: "tick_env \<Rightarrow> globals \<Rightarrow> globals" where
  "kickerCallback e g = g\<lparr>command := of_int (createRandomNumber 0 31 (draw_command e))\<rparr>"

definition callback :: "nat \<Rightarrow> tick_env \<Rightarrow> globals \<Rightarrow> globals" where
  "callback i e g =
     (if i = 0 then vectorCallback e g
      else if i = 1 then visionCallback e g
      else if i = 2 then kickerCallback e g
      else g)"

text \<open>
  The state that \<open>main\<close> changes: the payload globals, \<open>send_buffer\<close>, the bytes given to
  \<open>write\<close> so far (one element per call, each call writes one byte), the arguments of the
  \<open>usleep\<close> calls so far, and \<open>loop_count\<close>. The \<open>printf\<close> output on standard output is not
  part of the model. \<open>loop_count\<close> is an \<open>int\<close>: a 32-bit word, read as a signed number
  (\<open>sint\<close>) where the program compares it. The increment at \<open>2^31 - 1\<close> is a signed
  overflow, which C++ leaves undefined; the word wraps there, and nothing below is stated
  about a run that gets that far.
\<close>

record mstate =
  bus :: globals
  send_buffer :: vu8
  written :: vu8
  sleeps :: "int list"
  loop_count :: c_int

text \<open>
  One pass of the inner \<open>for\<close> loop (source lines 306 to 355): the callback for \<open>i\<close>, the
  packer appending to \<open>send_buffer\<close>, and the frame; \<open>send_all\<close> is the loop over
  \<open>i = 0, ..., MAX_DATA_TYPE - 1\<close>.
\<close>

definition send_step :: "nat \<Rightarrow> tick_env \<Rightarrow> mstate \<Rightarrow> mstate" where
  "send_step i e s =
     (let g' = callback i e (bus s);
          buf = setSendDataFromROSBus (of_nat i) g' (send_buffer s)
      in case send_frame buf (written s) of
           (buf', wire') \<Rightarrow> s\<lparr>bus := g', send_buffer := buf', written := wire'\<rparr>)"

definition send_all :: "tick_env \<Rightarrow> mstate \<Rightarrow> mstate" where
  "send_all e s = foldl (\<lambda>s i. send_step i e s) s [0..<MAX_DATA_TYPE]"

text \<open>\<open>looptime = tv_end.tv_usec - tv_start.tv_usec\<close> (source line 362).\<close>

definition looptime_of :: "timeval \<Rightarrow> timeval \<Rightarrow> int" where
  "looptime_of t_start t_end = tv_usec t_end - tv_usec t_start"

text \<open>
  One pass of the \<open>while\<close> body up to the increment of \<open>loop_count\<close>: the three frames,
  the sleep when \<open>looptime < microsecond\<close>, the increment.
\<close>

definition tick :: "params \<Rightarrow> tick_env \<Rightarrow> mstate \<Rightarrow> mstate" where
  "tick p e s =
     (let s1 = send_all e s;
          looptime = looptime_of (tv_start e) (tv_end e);
          s2 = (if looptime < microsecond p
                then s1\<lparr>sleeps := sleeps s1 @ [microsecond p - looptime]\<rparr>
                else s1)
      in s2\<lparr>loop_count := loop_count s2 + 1\<rparr>)"

text \<open>
  The \<open>while(!errorFlag)\<close> loop. \<open>errorFlag k\<close> is the value the loop condition reads at
  its test number \<open>k\<close> (counting from 0), and \<open>env k\<close> the outside world during pass \<open>k\<close>.
  After the increment, the loop is left when \<open>loop_count_enable\<close> holds and \<open>loop_count\<close>
  has reached \<open>loop_length\<close>. The loop need not end, so the result is an option: \<open>None\<close>
  is a loop that runs forever.
\<close>

partial_function (option) main_loop ::
  "(nat \<Rightarrow> bool) \<Rightarrow> (nat \<Rightarrow> tick_env) \<Rightarrow> params \<Rightarrow> nat \<Rightarrow> mstate \<Rightarrow> mstate option" where
  "main_loop errorFlag env p k s =
     (if errorFlag k then Some s
      else let s' = tick p (env k) s
           in if loop_count_enable p \<and> loop_length p \<le> sint (loop_count s') then Some s'
              else main_loop errorFlag env p (Suc k) s')"

text \<open>The state when the loop is entered: globals zero, buffer empty, nothing written.\<close>

definition initial :: mstate where
  "initial = \<lparr>bus = \<lparr>x_vector = 0, y_vector = 0, th_vector = 0, calib_data = 0, command = 0\<rparr>,
              send_buffer = [], written = [], sleeps = [], loop_count = 0\<rparr>"

text \<open>
  \<open>main\<close>: the parameters, the loop, then (source lines 376 to 380) one line on the error
  stream when \<open>loop_count < loop_length\<close>, and \<open>return 0\<close>. The outcome is the lines written
  to the error stream, the exit status and the final state.
\<close>

record outcome =
  stderr :: "string list"
  exit_status :: int
  final :: mstate

definition diagnostic :: string where
  "diagnostic = ''Exit with signal error''"

definition main :: "int list \<Rightarrow> (nat \<Rightarrow> bool) \<Rightarrow> (nat \<Rightarrow> tick_env) \<Rightarrow> outcome option" where
  "main args errorFlag env =
     (let p = setParameterFromCommandLine args
      in case main_loop errorFlag env p 0 initial of
           None \<Rightarrow> None
         | Some s \<Rightarrow>
             Some \<lparr>stderr = (if sint (loop_count s) < loop_length p then [diagnostic] else []),
                   exit_status = 0, final = s\<rparr>)"

text \<open>
  The packer seen as the specification's \<open>pack(datatype, values)\<close>, with a result that
  could carry an error: the packer run on an empty buffer. The function returns \<open>void\<close>,
  throws nothing and tests nothing, so every call is a normal return.
\<close>

datatype error = InvalidDatatype

definition pack :: "u8 \<Rightarrow> globals \<Rightarrow> error + vu8" where
  "pack datatype g = Inr (setSendDataFromROSBus datatype g [])"

section \<open>The packing formulas as the specification words them\<close>

text \<open>
  The specification gives each payload byte as a formula of shifts and masks on unsigned
  integers. These definitions follow its words, over the naturals, so that a formula's
  value is not cut to any width.
\<close>

definition spec_VelocityVector :: "nat \<Rightarrow> nat \<Rightarrow> nat \<Rightarrow> nat list" where
  "spec_VelocityVector x y th =
     [push_bit 5 0 OR drop_bit 7 x,
      push_bit 1 (x AND 0x7F) OR drop_bit 11 y,
      drop_bit 3 y AND 0xFF,
      push_bit 5 (y AND 0x3F) OR drop_bit 8 th,
      th AND 0xFF]"

definition spec_RotationCalibration :: "nat \<Rightarrow> nat list" where
  "spec_RotationCalibration calib = [push_bit 5 1 OR drop_bit 8 calib, calib AND 0xFF]"

definition spec_KickerCommand :: "nat \<Rightarrow> nat list" where
  "spec_KickerCommand cmd = [push_bit 5 2 OR cmd]"

text \<open>
  The velocity formulas with the fourth byte cut to eight bits, as the store into a
  \<open>uint8_t\<close> does.
\<close>

definition stored_VelocityVector :: "nat \<Rightarrow> nat \<Rightarrow> nat \<Rightarrow> nat list" where
  "stored_VelocityVector x y th =
     [push_bit 5 0 OR drop_bit 7 x,
      push_bit 1 (x AND 0x7F) OR drop_bit 11 y,
      drop_bit 3 y AND 0xFF,
      (push_bit 5 (y AND 0x3F) OR drop_bit 8 th) AND 0xFF,
      th AND 0xFF]"

text \<open>Sample field values inside the declared widths.\<close>

definition g_sample :: globals where
  "g_sample = \<lparr>x_vector = 0xABC, y_vector = 0x9FE, th_vector = 0x123,
                calib_data = 0x1A7D, command = 0x1E\<rparr>"

definition g_boundary :: globals where
  "g_boundary = \<lparr>x_vector = 4095, y_vector = 0, th_vector = 0, calib_data = 0, command = 0\<rparr>"

definition g_y8 :: globals where
  "g_y8 = \<lparr>x_vector = 0, y_vector = 8, th_vector = 0, calib_data = 0, command = 0\<rparr>"

section \<open>The framing rules as the specification words them\<close>

text \<open>
  Step 2a of the encoder: a payload byte equal to the header or the escape value is
  replaced by itself XOR \<open>0x20\<close>. \<open>transmitted\<close> is the value that goes on the wire for a
  byte, \<open>escape_byte\<close> the one or two bytes written for it.
\<close>

definition transmitted :: "u8 \<Rightarrow> u8" where
  "transmitted b = (if b = HEAD_BYTE \<or> b = ESCAPE_BYTE then b XOR ESCAPE_MASK else b)"

definition escape_byte :: "u8 \<Rightarrow> vu8" where
  "escape_byte b = (if b = HEAD_BYTE \<or> b = ESCAPE_BYTE then [ESCAPE_BYTE, b XOR ESCAPE_MASK] else [b])"

text \<open>
  The checksum: the literal header value plus the transmitted values of the payload bytes
  (the inserted escape bytes are not part of the sum), cut to eight bits; and steps 4 and 5,
  the bytes written for it.
\<close>

definition spec_checksum :: "vu8 \<Rightarrow> nat" where
  "spec_checksum payload = (0x7D + sum_list (map (\<lambda>b. unat (transmitted b)) payload)) mod 256"

definition escaped_checksum :: "nat \<Rightarrow> vu8" where
  "escaped_checksum c = (if c = 0x7D \<or> c = 0x7E then [0x7E, of_nat c XOR 0x20] else [of_nat c])"

text \<open>The checksum byte before its own escape, as the code computes it.\<close>

definition checksum_byte :: "vu8 \<Rightarrow> u8" where
  "checksum_byte payload =
     to_u8 ((int_of_u8 HEAD_BYTE + sum_list (map (\<lambda>b. int_of_u8 (transmitted b)) payload)) AND 0xFF)"

text \<open>
  The data bytes of a frame are the payload bytes followed by the checksum byte, as they
  stand before escaping. \<open>wire_pos payload i\<close> is the place on the wire where the bytes
  written for data byte \<open>i\<close> begin: after the header and after what was written for the data
  bytes before it.
\<close>

definition data_bytes :: "vu8 \<Rightarrow> vu8" where
  "data_bytes payload = payload @ [checksum_byte payload]"

definition wire_pos :: "vu8 \<Rightarrow> nat \<Rightarrow> nat" where
  "wire_pos payload i = Suc (length (concat (map escape_byte (take i (data_bytes payload)))))"

text \<open>The calibration payload of the sample values; it holds a \<open>0x7D\<close>.\<close>

definition p_calib :: vu8 where
  "p_calib = setSendDataFromROSBus 1 g_sample []"

section \<open>A decoder\<close>

text \<open>
  The program only sends. The decoder below is the inverse that the round-trip property
  speaks of: after the header, each escape byte \<open>0x7E\<close> is dropped and the byte after it
  XORed with \<open>0x20\<close>; the last byte (the checksum) is set aside; the tag is read from the
  top three bits of the first payload byte and the fields by inverting the packing
  formulas.
\<close>

datatype payload = VelocityVector u16 u16 u16 | RotationCalibration u16 | KickerCommand u16

fun unescape :: "vu8 \<Rightarrow> vu8" where
  "unescape [] = []"
| "unescape [b] = [b]"
| "unescape (b # c # rest) =
     (if b = ESCAPE_BYTE then (c XOR ESCAPE_MASK) # unescape rest else b # unescape (c # rest))"

definition u16_of_u8 :: "u8 \<Rightarrow> u16" where
  "u16_of_u8 b = ucast b"

fun unpack :: "vu8 \<Rightarrow> payload option" where
  "unpack [b0] =
     (if drop_bit 5 b0 = 2 then Some (KickerCommand (u16_of_u8 (b0 AND 0x1F))) else None)"
| "unpack [b0, b1] =
     (if drop_bit 5 b0 = 1
      then Some (RotationCalibration (push_bit 8 (u16_of_u8 (b0 AND 0x1F)) OR u16_of_u8 b1))
      else None)"
| "unpack [b0, b1, b2, b3, b4] =
     (if drop_bit 5 b0 = 0
      then Some (VelocityVector
        (push_bit 7 (u16_of_u8 (b0 AND 0x1F)) OR drop_bit 1 (u16_of_u8 b1))
        (push_bit 11 (u16_of_u8 (b1 AND 0x01)) OR push_bit 3 (u16_of_u8 b2) OR drop_bit 5 (u16_of_u8 b3))
        (push_bit 8 (u16_of_u8 (b3 AND 0x0F)) OR u16_of_u8 b4))
      else None)"
| "unpack _ = None"

definition decodeFrame :: "vu8 \<Rightarrow> payload option" where
  "decodeFrame stream =
     (case stream of
        [] \<Rightarrow> None
      | h # body \<Rightarrow>
          if h = HEAD_BYTE
          then (case unescape body of [] \<Rightarrow> None | b # bs \<Rightarrow> unpack (butlast (b # bs)))
          else None)"

section \<open>Auxiliary notions for the scheduler\<close>

text \<open>The duration between two clock readings in microseconds, as the specification asks.\<close>

definition elapsed_micros :: "timeval \<Rightarrow> timeval \<Rightarrow> int" where
  "elapsed_micros t_start t_end =
     (tv_sec t_end - tv_sec t_start) * 1000000 + (tv_usec t_end - tv_usec t_start)"

text \<open>
  \<open>ticks_from env p j n s\<close>: the state after the \<open>n\<close> passes number \<open>j, ..., j + n - 1\<close>
  from \<open>s\<close>. \<open>before_pack env p n i\<close>: the state in pass \<open>n\<close> of a run from \<open>initial\<close>,
  just before the iteration \<open>i\<close> of the inner \<open>for\<close> loop, that is, after the iterations
  \<open>0, ..., i - 1\<close>.
\<close>

fun ticks_from :: "(nat \<Rightarrow> tick_env) \<Rightarrow> params \<Rightarrow> nat \<Rightarrow> nat \<Rightarrow> mstate \<Rightarrow> mstate" where
  "ticks_from env p j 0 s = s"
| "ticks_from env p j (Suc n) s = ticks_from env p (Suc j) n (tick p (env j) s)"

definition before_pack :: "(nat \<Rightarrow> tick_env) \<Rightarrow> params \<Rightarrow> nat \<Rightarrow> nat \<Rightarrow> mstate" where
  "before_pack env p n i =
     foldl (\<lambda>s i. send_step i (env n) s) (ticks_from env p 0 n initial) [0..<i]"

text \<open>A sample outside world: pass \<open>k\<close> starts at 10.999000 s and ends at 11.001000 s.\<close>

definition env_sample :: "nat \<Rightarrow> tick_env" where
  "env_sample k = \<lparr>draw_x = 5000 + k, draw_y = 77, draw_th = 4095, draw_calib = 6781,
                   draw_command = 30,
                   tv_start = \<lparr>tv_sec = 10, tv_usec = 999000\<rparr>,
                   tv_end = \<lparr>tv_sec = 11, tv_usec = 1000\<rparr>\<rparr>"

section \<open>Bit-level facts\<close>

lemmas conv_defs = to_u8_def int_of_u8_def int_of_u16_def

lemmas wire_defs = HEAD_BYTE_def ESCAPE_BYTE_def ESCAPE_MASK_def

lemma nat_masks:
  "(a::nat) AND 0x7 = take_bit 3 a" "(a::nat) AND 0x3F = take_bit 6 a"
  "(a::nat) AND 0x7F = take_bit 7 a" "(a::nat) AND 0xFF = take_bit 8 a"
  by (simp_all add: take_bit_eq_mask mask_eq_exp_minus_1)

lemma int_masks:
  "(w::c_int) AND 0x7 = take_bit 3 w" "(w::c_int) AND 0x3F = take_bit 6 w"
  "(w::c_int) AND 0x7F = take_bit 7 w" "(w::c_int) AND 0xFF = take_bit 8 w"
  by (simp_all add: take_bit_eq_mask mask_eq_exp_minus_1)

lemma bit_bound:
  fixes w :: "'a::len word"
  assumes "unat w < 2 ^ k" and "bit w n"
  shows "n < k"
proof -
  have "take_bit k (unat w) = unat w"
    using assms(1) by (simp add: take_bit_nat_eq_self)
  then have "take_bit k w = w"
    by (metis unsigned_take_bit_eq word_unat_eq_iff)
  then have "bit (take_bit k w) n"
    using assms(2) by simp
  then show ?thesis
    by (simp add: bit_take_bit_iff)
qed

subsection \<open>Each packed byte, read as a number\<close>

lemma byte_tag_field:
  fixes t :: u8 and v :: u16
  assumes T: "\<And>n. bit t n \<Longrightarrow> n < 3" and V: "\<And>n. bit v n \<Longrightarrow> n < k + 5"
  shows "unat (to_u8 (push_bit 5 (int_of_u8 t AND 0x7) OR drop_bit k (int_of_u16 v)))
         = push_bit 5 (unat t) OR drop_bit k (unat v)"
  unfolding conv_defs nat_masks int_masks
  apply (rule bit_eqI)
  apply (simp only: bit_simps)
  apply (auto simp: bit_simps dest: T V bit_imp_le_length)
  done

lemma byte_vel1:
  fixes x y :: u16
  assumes X: "\<And>n. bit x n \<Longrightarrow> n < 12" and Y: "\<And>n. bit y n \<Longrightarrow> n < 12"
  shows "unat (to_u8 (push_bit 1 (int_of_u16 x AND 0x7F) OR drop_bit 11 (int_of_u16 y)))
         = push_bit 1 (unat x AND 0x7F) OR drop_bit 11 (unat y)"
  unfolding conv_defs nat_masks int_masks
  apply (rule bit_eqI)
  apply (simp only: bit_simps)
  apply (auto simp: bit_simps dest: X Y)
  done

lemma byte_vel2:
  fixes y :: u16
  shows "unat (to_u8 (drop_bit 3 (int_of_u16 y) AND 0xFF)) = drop_bit 3 (unat y) AND 0xFF"
  unfolding conv_defs nat_masks int_masks
  apply (rule bit_eqI)
  apply (simp only: bit_simps)
  apply (auto simp: bit_simps)
  done

lemma byte_vel3:
  fixes y th :: u16
  shows "unat (to_u8 (push_bit 5 (int_of_u16 y AND 0x3F) OR drop_bit 8 (int_of_u16 th)))
         = (push_bit 5 (unat y AND 0x3F) OR drop_bit 8 (unat th)) AND 0xFF"
  unfolding conv_defs nat_masks int_masks
  apply (rule bit_eqI)
  apply (simp only: bit_simps)
  apply (auto simp: bit_simps)
  done

lemma byte_low:
  fixes v :: u16
  shows "unat (to_u8 (int_of_u16 v AND 0xFF)) = unat v AND 0xFF"
  unfolding conv_defs nat_masks int_masks
  apply (rule bit_eqI)
  apply (simp only: bit_simps)
  apply (auto simp: bit_simps)
  done

subsection \<open>The packer, branch by branch\<close>

lemma setSend_0:
  "setSendDataFromROSBus 0 g buf = buf @
        [to_u8 (push_bit 5 (int_of_u8 0 AND 0x7) OR drop_bit 7 (int_of_u16 (x_vector g))),
         to_u8 (push_bit 1 (int_of_u16 (x_vector g) AND 0x7F) OR drop_bit 11 (int_of_u16 (y_vector g))),
         to_u8 (drop_bit 3 (int_of_u16 (y_vector g)) AND 0xFF),
         to_u8 (push_bit 5 (int_of_u16 (y_vector g) AND 0x3F) OR drop_bit 8 (int_of_u16 (th_vector g))),
         to_u8 (int_of_u16 (th_vector g) AND 0xFF)]"
  by (simp add: setSendDataFromROSBus_def)

lemma setSend_1:
  "setSendDataFromROSBus 1 g buf = buf @
        [to_u8 (push_bit 5 (int_of_u8 1 AND 0x7) OR drop_bit 8 (int_of_u16 (calib_data g))),
         to_u8 (int_of_u16 (calib_data g) AND 0xFF)]"
  by (simp add: setSendDataFromROSBus_def)

lemma setSend_2:
  "setSendDataFromROSBus 2 g buf = buf @
        [to_u8 (push_bit 5 (int_of_u8 2 AND 0x7) OR drop_bit 0 (int_of_u16 (command g)))]"
  by (simp add: setSendDataFromROSBus_def)

lemma setSend_other:
  "datatype \<noteq> 0 \<Longrightarrow> datatype \<noteq> 1 \<Longrightarrow> datatype \<noteq> 2 \<Longrightarrow> setSendDataFromROSBus datatype g buf = buf"
  by (simp add: setSendDataFromROSBus_def)

section \<open>Payload packing\<close>

text \<open>
  Claim C1, as the code has it. For field values inside the declared widths (\<open>x\<close>, \<open>y\<close>,
  \<open>th\<close> below \<open>2^12\<close>, \<open>calib\<close> below \<open>2^13\<close>, \<open>command\<close> below \<open>2^5\<close>) the packer
  yields, for tag 0, the five bytes \<open>(0<<5)|(x>>7)\<close>, \<open>((x&0x7F)<<1)|(y>>11)\<close>,
  \<open>(y>>3)&0xFF\<close>, \<open>(((y&0x3F)<<5)|(th>>8))&0xFF\<close>, \<open>th&0xFF\<close>; for tag 1 the two bytes
  \<open>(1<<5)|(calib>>8)\<close>, \<open>calib&0xFF\<close>; for tag 2 the byte \<open>(2<<5)|command\<close>. All
  formulas are read over the naturals; only the fourth velocity byte needs the cut to
  eight bits, since \<open>(y&0x3F)<<5\<close> reaches up to 2016.
\<close>

theorem pack_bytes:
  assumes "unat (x_vector g) < 2 ^ 12" and "unat (y_vector g) < 2 ^ 12"
    and "unat (th_vector g) < 2 ^ 12" and "unat (calib_data g) < 2 ^ 13"
    and "unat (command g) < 2 ^ 5"
  shows "map unat (setSendDataFromROSBus 0 g []) =
           stored_VelocityVector (unat (x_vector g)) (unat (y_vector g)) (unat (th_vector g))
       \<and> map unat (setSendDataFromROSBus 1 g []) = spec_RotationCalibration (unat (calib_data g))
       \<and> map unat (setSendDataFromROSBus 2 g []) = spec_KickerCommand (unat (command g))"
proof -
  have T0: "\<And>n. bit (0::u8) n \<Longrightarrow> n < 3" by simp
  have T1: "\<And>n. bit (1::u8) n \<Longrightarrow> n < 3" by (simp add: bit_1_iff)
  have T2: "\<And>n. bit (2::u8) n \<Longrightarrow> n < 3" using bit_bound [of "2::u8" 3] by simp
  have X: "\<And>n. bit (x_vector g) n \<Longrightarrow> n < 7 + 5"
    using assms(1) bit_bound [of "x_vector g" 12] by simp
  have X': "\<And>n. bit (x_vector g) n \<Longrightarrow> n < 12"
    using X by simp
  have Y: "\<And>n. bit (y_vector g) n \<Longrightarrow> n < 12"
    using assms(2) bit_bound by blast
  have C: "\<And>n. bit (calib_data g) n \<Longrightarrow> n < 8 + 5"
    using assms(4) bit_bound [of "calib_data g" 13] by simp
  have K: "\<And>n. bit (command g) n \<Longrightarrow> n < 0 + 5"
    using assms(5) bit_bound [of "command g" 5] by simp
  have u0: "unat (0::u8) = 0" and u1: "unat (1::u8) = 1" and u2: "unat (2::u8) = 2"
    by simp_all
  have d0: "drop_bit 0 (unat (command g)) = unat (command g)"
    by simp
  have v: "map unat (setSendDataFromROSBus 0 g []) =
           stored_VelocityVector (unat (x_vector g)) (unat (y_vector g)) (unat (th_vector g))"
    by (simp only: setSend_0 stored_VelocityVector_def list.map append_Nil u0
        byte_tag_field [OF T0 X] byte_vel1 [OF X' Y] byte_vel2 byte_vel3 byte_low)
  have r: "map unat (setSendDataFromROSBus 1 g []) = spec_RotationCalibration (unat (calib_data g))"
    by (simp only: setSend_1 spec_RotationCalibration_def list.map append_Nil u1
        byte_tag_field [OF T1 C] byte_low)
  have k: "map unat (setSendDataFromROSBus 2 g []) = spec_KickerCommand (unat (command g))"
    by (simp only: setSend_2 spec_KickerCommand_def list.map append_Nil u2 d0
        byte_tag_field [OF T2 K])
  from v r k show ?thesis by simp
qed

text \<open>C1, at sample values inside the widths.\<close>

theorem pack_bytes_witness:
  "unat (x_vector g_sample) < 2 ^ 12 \<and> unat (y_vector g_sample) < 2 ^ 12
   \<and> unat (th_vector g_sample) < 2 ^ 12 \<and> unat (calib_data g_sample) < 2 ^ 13
   \<and> unat (command g_sample) < 2 ^ 5
   \<and> map unat (setSendDataFromROSBus 0 g_sample []) = stored_VelocityVector 0xABC 0x9FE 0x123
   \<and> map unat (setSendDataFromROSBus 1 g_sample []) = spec_RotationCalibration 0x1A7D
   \<and> map unat (setSendDataFromROSBus 2 g_sample []) = spec_KickerCommand 0x1E"
  using pack_bytes [of g_sample] by (simp add: g_sample_def)


text \<open>
  C1 as the specification words it fails for the fourth velocity byte: with \<open>y = 8\<close> the
  formula \<open>((y&0x3F)<<5)|(th>>8)\<close> is 256, which is no byte; the code stores 0.
\<close>

theorem pack_velocity_counterexample:
  "unat (x_vector g_y8) < 2 ^ 12 \<and> unat (y_vector g_y8) < 2 ^ 12 \<and> unat (th_vector g_y8) < 2 ^ 12
   \<and> map unat (setSendDataFromROSBus 0 g_y8 [])
       \<noteq> spec_VelocityVector (unat (x_vector g_y8)) (unat (y_vector g_y8)) (unat (th_vector g_y8))"
  by (simp add: g_y8_def setSendDataFromROSBus_def spec_VelocityVector_def conv_defs)


text \<open>
  Claim C5, as the code has it. For \<open>x = 4095\<close>, \<open>y = 0\<close>, \<open>th = 0\<close> the velocity payload
  is \<open>0x1F, 0xFE, 0x00, 0x00, 0x00\<close>; neither the header nor the escape value occurs in it,
  and its frame is the header, the five bytes unchanged and the checksum \<open>0x9A\<close>: seven
  bytes, no escape byte among them.
\<close>

theorem boundary_scenario:
  "setSendDataFromROSBus 0 g_boundary [] = [0x1F, 0xFE, 0x00, 0x00, 0x00]
   \<and> HEAD_BYTE \<notin> set (setSendDataFromROSBus 0 g_boundary [])
   \<and> ESCAPE_BYTE \<notin> set (setSendDataFromROSBus 0 g_boundary [])
   \<and> encodeFrame (setSendDataFromROSBus 0 g_boundary [])
       = [0x7D, 0x1F, 0xFE, 0x00, 0x00, 0x00, 0x9A]"
  by (simp add: setSendDataFromROSBus_def g_boundary_def conv_defs wire_defs
      encodeFrame_def send_frame_def send_byte_def send_checksum_def)

text \<open>C5 as the specification words it: the second byte is not \<open>0x02\<close>.\<close>

theorem boundary_scenario_counterexample:
  "setSendDataFromROSBus 0 g_boundary [] \<noteq> [0x1F, 0x02, 0x00, 0x00, 0x00]"
  by (simp add: setSendDataFromROSBus_def g_boundary_def conv_defs)

section \<open>The frame encoder, in closed form\<close>

lemma send_byte_eq:
  "send_byte b checksum = (transmitted b, escape_byte b, checksum + int_of_u8 (transmitted b))"
  by (simp add: send_byte_def transmitted_def escape_byte_def)

lemma send_loop_eq:
  "send_loop xs visited wire checksum =
     (visited @ map transmitted xs, wire @ concat (map escape_byte xs),
      checksum + sum_list (map (\<lambda>b. int_of_u8 (transmitted b)) xs))"
  by (induction xs arbitrary: visited wire checksum) (simp_all add: send_byte_eq add.assoc)

lemma send_frame_eq:
  "send_frame payload wire =
     ([], wire @ HEAD_BYTE # concat (map escape_byte payload) @
          send_checksum (int_of_u8 HEAD_BYTE + sum_list (map (\<lambda>b. int_of_u8 (transmitted b)) payload)))"
  by (simp add: send_frame_def send_loop_eq)

lemma encodeFrame_eq:
  "encodeFrame payload =
     HEAD_BYTE # concat (map escape_byte payload) @
       send_checksum (int_of_u8 HEAD_BYTE + sum_list (map (\<lambda>b. int_of_u8 (transmitted b)) payload))"
  by (simp add: encodeFrame_def send_frame_eq)

lemma unat_int_of_u8: "unat (int_of_u8 b) = unat b"
  unfolding int_of_u8_def by (rule bit_eqI) (auto simp: bit_simps dest: bit_imp_le_length)

lemma unat_sum_list_u8:
  "unat (sum_list (map (\<lambda>b. int_of_u8 (f b)) xs)) = sum_list (map (\<lambda>b. unat (f b)) xs) mod 2 ^ 32"
proof (induction xs)
  case Nil
  then show ?case by simp
next
  case (Cons a xs)
  have "unat (int_of_u8 (f a) + sum_list (map (\<lambda>b. int_of_u8 (f b)) xs))
        = (unat (f a) + sum_list (map (\<lambda>b. unat (f b)) xs) mod 2 ^ 32) mod 2 ^ 32"
    by (simp add: unat_word_ariths unat_int_of_u8 Cons.IH)
  then show ?case
    by (simp add: mod_add_right_eq)
qed

lemma low_byte: "unat (to_u8 (c AND 0xFF)) = unat c mod 256"
proof -
  have "unat (to_u8 (c AND 0xFF)) = take_bit 8 (unat c)"
    unfolding to_u8_def int_masks by (rule bit_eqI) (auto simp: bit_simps)
  then show ?thesis
    by (simp add: take_bit_eq_mod)
qed

lemma checksum_value:
  "unat (to_u8 ((int_of_u8 HEAD_BYTE + sum_list (map (\<lambda>b. int_of_u8 (transmitted b)) payload)) AND 0xFF))
     = spec_checksum payload"
proof -
  have h: "unat (int_of_u8 HEAD_BYTE) = 125"
    by (simp add: unat_int_of_u8 HEAD_BYTE_def)
  have "unat (int_of_u8 HEAD_BYTE + sum_list (map (\<lambda>b. int_of_u8 (transmitted b)) payload))
        = (125 + sum_list (map (\<lambda>b. unat (transmitted b)) payload) mod 2 ^ 32) mod 2 ^ 32"
    by (simp add: unat_word_ariths unat_sum_list_u8 h)
  also have "\<dots> = (125 + sum_list (map (\<lambda>b. unat (transmitted b)) payload)) mod 2 ^ 32"
    by (simp add: mod_add_right_eq)
  finally have "unat (int_of_u8 HEAD_BYTE + sum_list (map (\<lambda>b. int_of_u8 (transmitted b)) payload)) mod 256
        = (125 + sum_list (map (\<lambda>b. unat (transmitted b)) payload)) mod 256"
    by (simp add: mod_mod_cancel)
  then show ?thesis
    by (simp only: low_byte spec_checksum_def)
qed

lemma send_checksum_eq:
  "send_checksum c = escaped_checksum (unat (to_u8 (c AND 0xFF)))"
proof -
  define u where "u = to_u8 (c AND 0xFF)"
  have a: "(unat u = 125) = (u = 0x7D)" "(unat u = 126) = (u = 0x7E)"
    using word_unat_eq_iff [of u "0x7D"] word_unat_eq_iff [of u "0x7E"] by simp_all
  have "send_checksum c = (if u = 0x7D \<or> u = 0x7E then [0x7E, u XOR 0x20] else [u])"
    by (simp add: send_checksum_def Let_def wire_defs u_def)
  also have "\<dots> = escaped_checksum (unat u)"
    unfolding escaped_checksum_def a by simp
  finally show ?thesis
    by (simp only: u_def)
qed

lemma send_checksum_escape: "send_checksum c = escape_byte (to_u8 (c AND 0xFF))"
  unfolding send_checksum_def escape_byte_def Let_def by (rule refl)

lemma encodeFrame_stuffed:
  "encodeFrame payload = HEAD_BYTE # concat (map escape_byte (payload @ [checksum_byte payload]))"
  by (simp add: encodeFrame_eq send_checksum_escape checksum_byte_def)

lemma length_escape_byte: "length (escape_byte b) = (if b = HEAD_BYTE \<or> b = ESCAPE_BYTE then 2 else 1)"
  by (simp add: escape_byte_def)

lemma length_stuffed_lower: "length xs \<le> length (concat (map escape_byte xs))"
  by (induction xs) (simp_all add: length_escape_byte)

lemma length_stuffed_upper: "length (concat (map escape_byte xs)) \<le> 2 * length xs"
  by (induction xs) (simp_all add: length_escape_byte)

lemma length_stuffed_exact:
  "length (concat (map escape_byte xs)) = length xs + length (filter (\<lambda>b. b = HEAD_BYTE \<or> b = ESCAPE_BYTE) xs)"
  by (induction xs) (simp_all add: length_escape_byte)

lemma head_not_in_escape_byte: "HEAD_BYTE \<notin> set (escape_byte b)"
  by (simp add: escape_byte_def wire_defs)

lemma head_not_in_stuffed: "HEAD_BYTE \<notin> set (concat (map escape_byte xs))"
  by (induction xs) (simp_all add: head_not_in_escape_byte)

lemma masked_values:
  "HEAD_BYTE XOR ESCAPE_MASK = 0x5D" "ESCAPE_BYTE XOR ESCAPE_MASK = 0x5E"
  by (simp_all add: wire_defs)

lemma escape_byte_cases:
  "(b \<noteq> HEAD_BYTE \<and> b \<noteq> ESCAPE_BYTE \<and> escape_byte b = [b])
   \<or> (b = HEAD_BYTE \<and> escape_byte b = [ESCAPE_BYTE, 0x5D])
   \<or> (b = ESCAPE_BYTE \<and> escape_byte b = [ESCAPE_BYTE, 0x5E])"
  by (auto simp add: escape_byte_def wire_defs)

section \<open>Checksum\<close>

text \<open>
  Claim C2. For every payload, the frame on the wire is the header, the payload bytes each
  escaped, and then the checksum: the low eight bits of \<open>0x7D\<close> plus the sum of the
  transmitted payload values, with the escape bytes left out of the sum; when that value is
  \<open>0x7D\<close> or \<open>0x7E\<close> the escape byte \<open>0x7E\<close> comes first and the value is sent XOR
  \<open>0x20\<close>.
\<close>

theorem frame_checksum:
  "encodeFrame payload =
     HEAD_BYTE # concat (map escape_byte payload) @ escaped_checksum (spec_checksum payload)"
  by (simp only: encodeFrame_eq send_checksum_eq checksum_value)

section \<open>Number of writes\<close>

text \<open>
  Claim C9, as the code has it. Every element of the wire is one single-byte \<open>write\<close>.
  One frame makes at least \<open>length payload + 2\<close> and at most \<open>2 * length payload + 3\<close>
  writes: one for the header, and one or two for each payload byte and for the checksum.
  The exact number is \<open>length payload + 2\<close> plus the number of bytes, checksum included,
  that had to be escaped.
\<close>

theorem frame_writes:
  "length payload + 2 \<le> length (encodeFrame payload)
   \<and> length (encodeFrame payload) \<le> 2 * length payload + 3
   \<and> length (encodeFrame payload) = length payload + 2
        + length (filter (\<lambda>b. b = HEAD_BYTE \<or> b = ESCAPE_BYTE) (payload @ [checksum_byte payload]))"
  using length_stuffed_lower [of "payload @ [checksum_byte payload]"]
    length_stuffed_upper [of "payload @ [checksum_byte payload]"]
    length_stuffed_exact [of "payload @ [checksum_byte payload]"]
  by (simp add: encodeFrame_stuffed)

text \<open>
  C9 as the specification words it fails as soon as one byte is escaped: the payload
  \<open>0x7D\<close> takes four writes, more than \<open>1 + 2\<close>.
\<close>

theorem frame_writes_counterexample:
  "\<not> length (encodeFrame [0x7D]) \<le> length [0x7D :: u8] + 2"
  by (simp add: encodeFrame_def send_frame_def send_byte_def send_checksum_def wire_defs conv_defs)


section \<open>Escaping safety\<close>

lemma stuffed_split:
  assumes "i < length xs"
  shows "concat (map escape_byte xs)
         = concat (map escape_byte (take i xs)) @ escape_byte (xs ! i)
           @ concat (map escape_byte (drop (Suc i) xs))"
proof -
  have "xs = take i xs @ xs ! i # drop (Suc i) xs"
    using assms by (rule id_take_nth_drop)
  then have "concat (map escape_byte xs)
      = concat (map escape_byte (take i xs @ xs ! i # drop (Suc i) xs))"
    by simp
  then show ?thesis
    by simp
qed

lemma stuffed_at:
  assumes "i < length xs"
  shows "(if xs ! i = HEAD_BYTE \<or> xs ! i = ESCAPE_BYTE
          then Suc (length (concat (map escape_byte (take i xs)))) < length (concat (map escape_byte xs))
             \<and> concat (map escape_byte xs) ! length (concat (map escape_byte (take i xs))) = ESCAPE_BYTE
             \<and> concat (map escape_byte xs) ! Suc (length (concat (map escape_byte (take i xs))))
                 = xs ! i XOR ESCAPE_MASK
          else length (concat (map escape_byte (take i xs))) < length (concat (map escape_byte xs))
             \<and> concat (map escape_byte xs) ! length (concat (map escape_byte (take i xs))) = xs ! i)"
  by (subst (1 2 3 4 5) stuffed_split [OF assms]) (simp add: escape_byte_def nth_append)


lemma marker_origin:
  "k < length (concat (map escape_byte xs)) \<Longrightarrow> concat (map escape_byte xs) ! k = ESCAPE_BYTE \<Longrightarrow>
     \<exists>i<length xs. k = length (concat (map escape_byte (take i xs)))
        \<and> (xs ! i = HEAD_BYTE \<or> xs ! i = ESCAPE_BYTE)"
proof (induction xs arbitrary: k)
  case Nil
  then show ?case by simp
next
  case (Cons b xs)
  let ?s = "concat (map escape_byte xs)"
  have E: "(0x5D::u8) \<noteq> ESCAPE_BYTE" "(0x5E::u8) \<noteq> ESCAPE_BYTE"
    by (simp_all add: wire_defs)
  consider (plain) "b \<noteq> HEAD_BYTE" "b \<noteq> ESCAPE_BYTE" "escape_byte b = [b]"
    | (esc) m where "b = HEAD_BYTE \<or> b = ESCAPE_BYTE" "escape_byte b = [ESCAPE_BYTE, m]"
        "m = 0x5D \<or> m = 0x5E"
    using escape_byte_cases [of b] by blast
  then show ?case
  proof cases
    case plain
    show ?thesis
    proof (cases k)
      case 0
      with Cons.prems plain show ?thesis by simp
    next
      case (Suc j)
      with Cons.prems plain have "j < length ?s" "?s ! j = ESCAPE_BYTE" by simp_all
      from Cons.IH [OF this] obtain i where i: "i < length xs"
        "j = length (concat (map escape_byte (take i xs)))"
        "xs ! i = HEAD_BYTE \<or> xs ! i = ESCAPE_BYTE"
        by blast
      show ?thesis
        by (rule exI [of _ "Suc i"]) (use i Suc plain in simp)
    qed
  next
    case esc
    show ?thesis
    proof (cases k)
      case 0
      show ?thesis
        by (rule exI [of _ 0]) (use 0 esc in simp)
    next
      case (Suc j)
      show ?thesis
      proof (cases j)
        case 0
        with Suc Cons.prems esc E show ?thesis by auto
      next
        case (Suc l)
        with \<open>k = Suc j\<close> Cons.prems esc have "l < length ?s" "?s ! l = ESCAPE_BYTE" by simp_all
        from Cons.IH [OF this] obtain i where i: "i < length xs"
          "l = length (concat (map escape_byte (take i xs)))"
          "xs ! i = HEAD_BYTE \<or> xs ! i = ESCAPE_BYTE"
          by blast
        show ?thesis
          by (rule exI [of _ "Suc i"]) (use i Suc \<open>k = Suc j\<close> esc in simp)
      qed
    qed
  qed
qed

lemma frame_data: "encodeFrame payload = HEAD_BYTE # concat (map escape_byte (data_bytes payload))"
  by (simp add: encodeFrame_stuffed data_bytes_def)

lemma escaped_on_wire:
  assumes "i < length (data_bytes payload)"
    and "data_bytes payload ! i = HEAD_BYTE \<or> data_bytes payload ! i = ESCAPE_BYTE"
  shows "Suc (wire_pos payload i) < length (encodeFrame payload)
       \<and> encodeFrame payload ! wire_pos payload i = ESCAPE_BYTE
       \<and> encodeFrame payload ! Suc (wire_pos payload i) = data_bytes payload ! i XOR ESCAPE_MASK"
  using stuffed_at [OF assms(1)] assms(2)
  by (simp add: frame_data wire_pos_def)

lemma plain_on_wire:
  assumes "i < length (data_bytes payload)"
    and "data_bytes payload ! i \<noteq> HEAD_BYTE" and "data_bytes payload ! i \<noteq> ESCAPE_BYTE"
  shows "wire_pos payload i < length (encodeFrame payload)
       \<and> encodeFrame payload ! wire_pos payload i = data_bytes payload ! i"
  using stuffed_at [OF assms(1)] assms(2,3)
  by (simp add: frame_data wire_pos_def)

lemma marker_on_wire:
  assumes "k < length (encodeFrame payload)" and "encodeFrame payload ! k = ESCAPE_BYTE"
  shows "\<exists>i<length (data_bytes payload). k = wire_pos payload i
           \<and> (data_bytes payload ! i = HEAD_BYTE \<or> data_bytes payload ! i = ESCAPE_BYTE)
           \<and> Suc k < length (encodeFrame payload)
           \<and> encodeFrame payload ! Suc k = data_bytes payload ! i XOR ESCAPE_MASK"
proof (cases k)
  case 0
  with assms show ?thesis by (simp add: frame_data wire_defs)
next
  case (Suc j)
  let ?s = "concat (map escape_byte (data_bytes payload))"
  from assms Suc have "j < length ?s" "?s ! j = ESCAPE_BYTE"
    by (simp_all add: frame_data)
  from marker_origin [OF this] obtain i where i: "i < length (data_bytes payload)"
    "j = length (concat (map escape_byte (take i (data_bytes payload))))"
    "data_bytes payload ! i = HEAD_BYTE \<or> data_bytes payload ! i = ESCAPE_BYTE"
    by blast
  have k: "k = wire_pos payload i"
    using Suc i(2) by (simp add: wire_pos_def)
  from escaped_on_wire [OF i(1,3)] k i(1,3) show ?thesis
    by blast
qed

text \<open>
  Claim C3. The frame is the header followed by the data bytes, each sent through
  \<open>escape_byte\<close>, and the header value occurs nowhere after the leading byte. Every data
  byte (payload or checksum) of value \<open>0x7D\<close> or \<open>0x7E\<close> stands on the wire as that byte XOR
  \<open>0x20\<close>, immediately preceded by the escape byte \<open>0x7E\<close>. Conversely every \<open>0x7E\<close> on the
  wire is the escape byte of such a data byte, and the byte written after it is that data
  byte XOR \<open>0x20\<close>.
\<close>

theorem escaping_safety:
  "encodeFrame payload = HEAD_BYTE # concat (map escape_byte (data_bytes payload))
   \<and> HEAD_BYTE \<notin> set (tl (encodeFrame payload))
   \<and> (\<forall>i. i < length (data_bytes payload)
            \<and> (data_bytes payload ! i = HEAD_BYTE \<or> data_bytes payload ! i = ESCAPE_BYTE) \<longrightarrow>
          Suc (wire_pos payload i) < length (encodeFrame payload)
          \<and> encodeFrame payload ! wire_pos payload i = ESCAPE_BYTE
          \<and> encodeFrame payload ! Suc (wire_pos payload i) = data_bytes payload ! i XOR ESCAPE_MASK)
   \<and> (\<forall>k. k < length (encodeFrame payload) \<and> encodeFrame payload ! k = ESCAPE_BYTE \<longrightarrow>
          (\<exists>i<length (data_bytes payload). k = wire_pos payload i
             \<and> (data_bytes payload ! i = HEAD_BYTE \<or> data_bytes payload ! i = ESCAPE_BYTE)
             \<and> Suc k < length (encodeFrame payload)
             \<and> encodeFrame payload ! Suc k = data_bytes payload ! i XOR ESCAPE_MASK))"
proof -
  have h: "HEAD_BYTE \<notin> set (tl (encodeFrame payload))"
    unfolding frame_data list.sel by (rule head_not_in_stuffed)
  show ?thesis
    using frame_data h escaped_on_wire marker_on_wire by blast
qed

text \<open>
  C3 at the calibration payload \<open>0x3A, 0x7D\<close> of the sample values: the frame is
  \<open>0x7D, 0x3A, 0x7E, 0x5D, 0x14\<close>, and data byte 1 stands at place 2 as \<open>0x7E, 0x5D\<close>.
\<close>

theorem escaping_safety_witness:
  "p_calib = [0x3A, 0x7D]
   \<and> encodeFrame p_calib = [0x7D, 0x3A, 0x7E, 0x5D, 0x14]
   \<and> 1 < length (data_bytes p_calib)
   \<and> data_bytes p_calib ! 1 = HEAD_BYTE
   \<and> wire_pos p_calib 1 = 2
   \<and> Suc (wire_pos p_calib 1) < length (encodeFrame p_calib)
   \<and> encodeFrame p_calib ! wire_pos p_calib 1 = ESCAPE_BYTE
   \<and> encodeFrame p_calib ! Suc (wire_pos p_calib 1) = data_bytes p_calib ! 1 XOR ESCAPE_MASK"
proof -
  have p: "p_calib = [0x3A, 0x7D]"
    by (simp add: p_calib_def setSendDataFromROSBus_def g_sample_def conv_defs)
  have e: "encodeFrame p_calib = [0x7D, 0x3A, 0x7E, 0x5D, 0x14]"
    unfolding p
    by (simp add: encodeFrame_def send_frame_def send_byte_def send_checksum_def wire_defs conv_defs)
  have d: "data_bytes p_calib = [0x3A, 0x7D, 0x14]"
    unfolding p
    by (simp add: data_bytes_def checksum_byte_def transmitted_def wire_defs conv_defs)
  have h1: "1 < length (data_bytes p_calib)" and h2: "data_bytes p_calib ! 1 = HEAD_BYTE"
    by (simp_all add: d wire_defs)
  have w: "wire_pos p_calib 1 = 2"
    by (simp add: wire_pos_def d escape_byte_def wire_defs)
  note s = escaping_safety [of p_calib]
  note c = s [THEN conjunct2, THEN conjunct2, THEN conjunct1, rule_format, OF conjI,
      OF h1 disjI1, OF h2]
  show ?thesis
    by (intro conjI p e h1 h2 w c [THEN conjunct1] c [THEN conjunct2, THEN conjunct1]
        c [THEN conjunct2, THEN conjunct2])
qed

section \<open>Round trip\<close>

lemma u8_masks:
  "(b::u8) AND 0x01 = take_bit 1 b" "(b::u8) AND 0x0F = take_bit 4 b" "(b::u8) AND 0x1F = take_bit 5 b"
  by (simp_all add: take_bit_eq_mask mask_eq_exp_minus_1)

lemma unescape_plain: "b \<noteq> ESCAPE_BYTE \<Longrightarrow> unescape (b # ys) = b # unescape ys"
  by (cases ys) simp_all

lemma xor_mask_twice: "(b XOR ESCAPE_MASK) XOR ESCAPE_MASK = b"
  by (simp add: xor.assoc)

lemma unescape_escape_byte: "unescape (escape_byte b @ ys) = b # unescape ys"
  by (simp add: escape_byte_def unescape_plain xor_mask_twice)

lemma unescape_stuffed: "unescape (concat (map escape_byte xs)) = xs"
proof (induction xs)
  case Nil
  then show ?case by simp
next
  case (Cons b xs)
  then show ?case
    using unescape_escape_byte [of b "concat (map escape_byte xs)"] by simp
qed

lemma decode_encode: "decodeFrame (encodeFrame payload) = unpack payload"
proof -
  have "unescape (concat (map escape_byte (payload @ [checksum_byte payload])))
        = payload @ [checksum_byte payload]"
    by (rule unescape_stuffed)
  then show ?thesis
    unfolding decodeFrame_def encodeFrame_stuffed
    by (cases payload) simp_all
qed


lemmas unpack_conv = conv_defs u16_of_u8_def nat_masks int_masks u8_masks

lemma tag_of_byte:
  fixes t :: u8 and v :: u16
  assumes T: "\<And>n. bit t n \<Longrightarrow> n < 3" and V: "\<And>n. bit v n \<Longrightarrow> n < k + 5"
  shows "drop_bit 5 (to_u8 (push_bit 5 (int_of_u8 t AND 0x7) OR drop_bit k (int_of_u16 v))) = t"
  unfolding unpack_conv
  apply (rule bit_eqI)
  apply (simp only: bit_simps)
  apply (auto simp: bit_simps dest: T V bit_imp_le_length)
  done

lemma unpack_x:
  fixes x y :: u16
  assumes X: "\<And>n. bit x n \<Longrightarrow> n < 12" and Y: "\<And>n. bit y n \<Longrightarrow> n < 12"
  shows "push_bit 7 (u16_of_u8 (to_u8 (push_bit 5 (int_of_u8 0 AND 0x7) OR drop_bit 7 (int_of_u16 x)) AND 0x1F))
         OR drop_bit 1 (u16_of_u8 (to_u8 (push_bit 1 (int_of_u16 x AND 0x7F) OR drop_bit 11 (int_of_u16 y))))
         = x"
  unfolding unpack_conv
  apply (rule bit_eqI)
  apply (simp only: bit_simps)
  apply (auto simp: bit_simps simp del: push_bit_Suc dest: X Y bit_imp_le_length)
  done

lemma unpack_y:
  fixes x y th :: u16
  assumes Y: "\<And>n. bit y n \<Longrightarrow> n < 12" and T: "\<And>n. bit th n \<Longrightarrow> n < 12"
  shows "push_bit 11 (u16_of_u8 (to_u8 (push_bit 1 (int_of_u16 x AND 0x7F) OR drop_bit 11 (int_of_u16 y)) AND 0x01))
         OR push_bit 3 (u16_of_u8 (to_u8 (drop_bit 3 (int_of_u16 y) AND 0xFF)))
         OR drop_bit 5 (u16_of_u8 (to_u8 (push_bit 5 (int_of_u16 y AND 0x3F) OR drop_bit 8 (int_of_u16 th))))
         = y"
  unfolding unpack_conv
  apply (rule bit_eqI)
  apply (simp only: bit_simps)
  apply (auto simp: bit_simps simp del: push_bit_Suc dest: Y T bit_imp_le_length)
  done

lemma unpack_th:
  fixes y th :: u16
  assumes T: "\<And>n. bit th n \<Longrightarrow> n < 12"
  shows "push_bit 8 (u16_of_u8 (to_u8 (push_bit 5 (int_of_u16 y AND 0x3F) OR drop_bit 8 (int_of_u16 th)) AND 0x0F))
         OR u16_of_u8 (to_u8 (int_of_u16 th AND 0xFF))
         = th"
  unfolding unpack_conv
  apply (rule bit_eqI)
  apply (simp only: bit_simps)
  apply (auto simp: bit_simps dest: T bit_imp_le_length)
  done

lemma unpack_calib:
  fixes c :: u16
  assumes C: "\<And>n. bit c n \<Longrightarrow> n < 13"
  shows "push_bit 8 (u16_of_u8 (to_u8 (push_bit 5 (int_of_u8 1 AND 0x7) OR drop_bit 8 (int_of_u16 c)) AND 0x1F))
         OR u16_of_u8 (to_u8 (int_of_u16 c AND 0xFF))
         = c"
  unfolding unpack_conv
  apply (rule bit_eqI)
  apply (simp only: bit_simps)
  apply (auto simp: bit_simps dest: C bit_imp_le_length)
  done

lemma unpack_command:
  fixes c :: u16
  assumes C: "\<And>n. bit c n \<Longrightarrow> n < 5"
  shows "u16_of_u8 (to_u8 (push_bit 5 (int_of_u8 2 AND 0x7) OR drop_bit 0 (int_of_u16 c)) AND 0x1F) = c"
  unfolding unpack_conv
  apply (rule bit_eqI)
  apply (simp only: bit_simps)
  apply (auto simp: bit_simps dest: C bit_imp_le_length)
  done


text \<open>
  Claim C4. For each of the three datatypes and all field values inside the declared
  widths, decoding the encoded frame gives back the datatype and the field values.
\<close>

theorem round_trip:
  assumes "unat (x_vector g) < 2 ^ 12" and "unat (y_vector g) < 2 ^ 12"
    and "unat (th_vector g) < 2 ^ 12" and "unat (calib_data g) < 2 ^ 13"
    and "unat (command g) < 2 ^ 5"
  shows "decodeFrame (encodeFrame (setSendDataFromROSBus 0 g []))
           = Some (VelocityVector (x_vector g) (y_vector g) (th_vector g))
       \<and> decodeFrame (encodeFrame (setSendDataFromROSBus 1 g []))
           = Some (RotationCalibration (calib_data g))
       \<and> decodeFrame (encodeFrame (setSendDataFromROSBus 2 g []))
           = Some (KickerCommand (command g))"
proof -
  have T0: "\<And>n. bit (0::u8) n \<Longrightarrow> n < 3" by simp
  have T1: "\<And>n. bit (1::u8) n \<Longrightarrow> n < 3" by (simp add: bit_1_iff)
  have T2: "\<And>n. bit (2::u8) n \<Longrightarrow> n < 3" using bit_bound [of "2::u8" 3] by simp
  have X: "\<And>n. bit (x_vector g) n \<Longrightarrow> n < 12"
    using assms(1) bit_bound by blast
  have Y: "\<And>n. bit (y_vector g) n \<Longrightarrow> n < 12"
    using assms(2) bit_bound by blast
  have T: "\<And>n. bit (th_vector g) n \<Longrightarrow> n < 12"
    using assms(3) bit_bound by blast
  have C: "\<And>n. bit (calib_data g) n \<Longrightarrow> n < 13"
    using assms(4) bit_bound by blast
  have K: "\<And>n. bit (command g) n \<Longrightarrow> n < 5"
    using assms(5) bit_bound by blast
  have X5: "\<And>n. bit (x_vector g) n \<Longrightarrow> n < 7 + 5" using X by simp
  have C5: "\<And>n. bit (calib_data g) n \<Longrightarrow> n < 8 + 5" using C by simp
  have K5: "\<And>n. bit (command g) n \<Longrightarrow> n < 0 + 5" using K by simp
  have v: "unpack (setSendDataFromROSBus 0 g [])
           = Some (VelocityVector (x_vector g) (y_vector g) (th_vector g))"
    by (simp only: setSend_0 append_Nil unpack.simps tag_of_byte [OF T0 X5] if_True simp_thms
        unpack_x [OF X Y] unpack_y [OF Y T] unpack_th [OF T])
  have r: "unpack (setSendDataFromROSBus 1 g []) = Some (RotationCalibration (calib_data g))"
    by (simp only: setSend_1 append_Nil unpack.simps tag_of_byte [OF T1 C5] if_True simp_thms
        unpack_calib [OF C])
  have k: "unpack (setSendDataFromROSBus 2 g []) = Some (KickerCommand (command g))"
    by (simp only: setSend_2 append_Nil unpack.simps tag_of_byte [OF T2 K5] if_True simp_thms
        unpack_command [OF K])
  from v r k show ?thesis
    by (simp only: decode_encode)
qed

text \<open>C4 at the sample values; the calibration payload there holds a \<open>0x7D\<close>, which is escaped.\<close>

theorem round_trip_witness:
  "unat (x_vector g_sample) < 2 ^ 12 \<and> unat (y_vector g_sample) < 2 ^ 12
   \<and> unat (th_vector g_sample) < 2 ^ 12 \<and> unat (calib_data g_sample) < 2 ^ 13
   \<and> unat (command g_sample) < 2 ^ 5
   \<and> decodeFrame (encodeFrame (setSendDataFromROSBus 0 g_sample []))
       = Some (VelocityVector 0xABC 0x9FE 0x123)
   \<and> decodeFrame (encodeFrame (setSendDataFromROSBus 1 g_sample []))
       = Some (RotationCalibration 0x1A7D)
   \<and> decodeFrame (encodeFrame (setSendDataFromROSBus 2 g_sample []))
       = Some (KickerCommand 0x1E)"
  using round_trip [of g_sample] by (simp add: g_sample_def)


section \<open>Invalid tags\<close>

text \<open>
  Claim C6, as the code has it. For a tag outside \<open>{0, 1, 2}\<close> the packer takes the empty
  \<open>default\<close> branch: it appends nothing, leaves the buffer as it was and returns normally;
  no error is raised. Run on an empty buffer it yields the empty payload.
\<close>

theorem invalid_datatype:
  assumes "datatype \<noteq> 0" and "datatype \<noteq> 1" and "datatype \<noteq> 2"
  shows "setSendDataFromROSBus datatype g buf = buf \<and> pack datatype g = Inr []"
  using assms by (simp add: pack_def setSend_other)

text \<open>C6 at the tag 3.\<close>

theorem invalid_datatype_witness:
  "(3::u8) \<noteq> 0 \<and> (3::u8) \<noteq> 1 \<and> (3::u8) \<noteq> 2
   \<and> setSendDataFromROSBus 3 g_sample [0x55] = [0x55] \<and> pack 3 g_sample = Inr []"
  using invalid_datatype [of 3 g_sample "[0x55]"] by simp

text \<open>C6 as the specification words it: with the tag 3 there is no error, the call succeeds.\<close>

theorem invalid_datatype_counterexample:
  "pack 3 g_sample = Inr [] \<and> pack 3 g_sample \<noteq> Inl InvalidDatatype"
  by (simp add: pack_def setSendDataFromROSBus_def)

section \<open>The callbacks\<close>

text \<open>
  The values the callbacks store are inside the declared widths, so the frames of the
  scheduler are frames of in-range fields.
\<close>

lemma createRandomNumber_range:
  assumes "0 < m"
  shows "0 \<le> createRandomNumber 0 m draw \<and> createRandomNumber 0 m draw \<le> m"
  using assms pos_mod_bound [of "m + 1" "int draw"] pos_mod_sign [of "m + 1" "int draw"]
  by (simp add: createRandomNumber_def)

lemma unat_of_int_u16:
  assumes "0 \<le> v" and "v < 65536"
  shows "unat (of_int v :: u16) = nat v"
proof -
  have "uint (of_int v :: u16) = v"
    using assms by (simp add: uint_word_of_int take_bit_eq_mod)
  then show ?thesis
    by (simp add: unat_eq_nat_uint)
qed

lemma stored_random_range:
  assumes "0 < m" and "m < 65536"
  shows "unat (of_int (createRandomNumber 0 m draw) :: u16) \<le> nat m"
proof -
  from createRandomNumber_range [OF assms(1), of draw]
  have r: "0 \<le> createRandomNumber 0 m draw" "createRandomNumber 0 m draw \<le> m"
    by simp_all
  with assms(2) have "unat (of_int (createRandomNumber 0 m draw) :: u16)
      = nat (createRandomNumber 0 m draw)"
    by (intro unat_of_int_u16) simp_all
  with r show ?thesis
    by simp
qed

lemma callbacks_in_range:
  "unat (x_vector (vectorCallback e g)) < 2 ^ 12"
  "unat (y_vector (vectorCallback e g)) < 2 ^ 12"
  "unat (th_vector (vectorCallback e g)) < 2 ^ 12"
  "unat (calib_data (visionCallback e g)) < 2 ^ 13"
  "unat (command (kickerCallback e g)) < 2 ^ 5"
  using stored_random_range [of 4095 "draw_x e"] stored_random_range [of 4095 "draw_y e"]
    stored_random_range [of 4095 "draw_th e"] stored_random_range [of 8191 "draw_calib e"]
    stored_random_range [of 31 "draw_command e"]
  by (simp_all add: vectorCallback_def visionCallback_def kickerCallback_def)

section \<open>The loop\<close>

lemma loop_count_send_step: "loop_count (send_step i e s) = loop_count s"
  by (simp add: send_step_def Let_def split: prod.splits)

lemma loop_count_send_all: "loop_count (send_all e s) = loop_count s"
proof -
  have "loop_count (foldl (\<lambda>s i. send_step i e s) s xs) = loop_count s" for xs
    by (induction xs arbitrary: s) (simp_all add: loop_count_send_step)
  then show ?thesis by (simp add: send_all_def)
qed

lemma loop_count_tick: "loop_count (tick p e s) = loop_count s + 1"
  by (simp add: tick_def Let_def loop_count_send_all)

lemma loop_count_ticks_from: "loop_count (ticks_from env p j n s) = loop_count s + of_nat n"
  by (induction n arbitrary: j s) (simp_all add: loop_count_tick)

text \<open>Below \<open>2^31\<close> the counter, read as a signed number, is the number of passes.\<close>

lemma sint_count:
  assumes "n < 2 ^ 31"
  shows "sint (of_nat n :: c_int) = int n"
proof -
  have "sint (of_nat n :: c_int) = signed_take_bit 31 (int n)"
    by (simp add: signed_of_nat)
  also have "\<dots> = int n"
    using assms by (intro signed_take_bit_int_eq_self) simp_all
  finally show ?thesis .
qed

lemma main_loop_steps:
  assumes "\<forall>i<n. \<not> errorFlag (j + i)"
    and "loop_count s = of_nat c" and "c + n < 2 ^ 31"
    and "loop_count_enable p \<longrightarrow> int (c + n) < loop_length p"
  shows "main_loop errorFlag env p j s = main_loop errorFlag env p (j + n) (ticks_from env p j n s)"
  using assms
proof (induction n arbitrary: j s c)
  case 0
  then show ?case by simp
next
  case (Suc n)
  let ?t = "tick p (env j) s"
  have nf: "\<not> errorFlag j" using Suc.prems(1) by force
  have lc: "loop_count ?t = of_nat (Suc c)"
    by (simp add: loop_count_tick Suc.prems(2))
  have "Suc c < 2 ^ 31" using Suc.prems(3) by simp
  then have si: "sint (loop_count ?t) = int (Suc c)"
    unfolding lc by (rule sint_count)
  have nb: "\<not> (loop_count_enable p \<and> loop_length p \<le> sint (loop_count ?t))"
    using Suc.prems(4) si by auto
  have step: "main_loop errorFlag env p j s = main_loop errorFlag env p (Suc j) ?t"
    using nf nb by (subst main_loop.simps) (auto simp add: Let_def)
  have a: "\<forall>i<n. \<not> errorFlag (Suc j + i)"
    using Suc.prems(1) by (metis Suc_less_eq add_Suc_shift)
  have r: "Suc c + n < 2 ^ 31" using Suc.prems(3) by simp
  have b: "loop_count_enable p \<longrightarrow> int (Suc c + n) < loop_length p"
    using Suc.prems(4) by simp
  from Suc.IH [OF a lc r b] step show ?case by simp
qed

lemma main_loop_cancelled:
  assumes "\<forall>i<n. \<not> errorFlag i" and "errorFlag n"
    and "loop_count s = 0" and "n < 2 ^ 31"
    and "loop_count_enable p \<longrightarrow> int n < loop_length p"
  shows "main_loop errorFlag env p 0 s = Some (ticks_from env p 0 n s)"
proof -
  have "main_loop errorFlag env p 0 s = main_loop errorFlag env p (0 + n) (ticks_from env p 0 n s)"
    using assms(1,3,4,5) by (intro main_loop_steps [where c = 0]) simp_all
  also have "\<dots> = Some (ticks_from env p 0 n s)"
    using assms(2) by (subst main_loop.simps) simp
  finally show ?thesis .
qed

lemma ticks_from_snoc:
  "ticks_from env p j (Suc n) s = tick p (env (j + n)) (ticks_from env p j n s)"
  by (induction n arbitrary: j s) simp_all

lemma main_loop_bound:
  assumes "\<forall>i<n. \<not> errorFlag i" and "loop_count_enable p" and "0 < n"
    and "loop_count s = 0" and "n < 2 ^ 31" and "int n = loop_length p"
  shows "main_loop errorFlag env p 0 s = Some (ticks_from env p 0 n s)"
proof -
  obtain m where n: "n = Suc m" using assms(3) by (cases n) simp_all
  let ?s = "ticks_from env p 0 m s"
  have "loop_count (tick p (env m) ?s) = of_nat n"
    by (simp add: loop_count_tick loop_count_ticks_from assms(4) n)
  then have si: "sint (loop_count (tick p (env m) ?s)) = int n"
    using sint_count [OF assms(5)] by simp
  have "main_loop errorFlag env p 0 s = main_loop errorFlag env p (0 + m) ?s"
    using assms(1,4,5,6) n by (intro main_loop_steps [where c = 0]) simp_all
  also have "\<dots> = Some (tick p (env m) ?s)"
    using assms(1,2,6) n si
    by (subst main_loop.simps) (simp add: Let_def)
  finally show ?thesis
    using n ticks_from_snoc [of env p 0 m s] by simp
qed


text \<open>Conversely, a loop that ends has made finitely many passes and ended in one of the two ways.\<close>

lemma main_loop_reaches:
  assumes "main_loop errorFlag env p j s = Some s'"
  shows "\<exists>n. s' = ticks_from env p j n s \<and> (\<forall>i<n. \<not> errorFlag (j + i))
          \<and> (errorFlag (j + n) \<or> (loop_count_enable p \<and> loop_length p \<le> sint (loop_count s')))"
  using assms
proof (induction errorFlag env p j s s' rule: main_loop.raw_induct [rotated 1, consumes 1, case_names step])
  case (step loop' errorFlag env p k s y)
  note eq = \<open>(if errorFlag k then Some s
      else let s' = tick p (env k) s
           in if loop_count_enable p \<and> loop_length p \<le> sint (loop_count s') then Some s'
              else loop' errorFlag env p (Suc k) s') = Some y\<close>
  show ?case
  proof (cases "errorFlag k")
    case True
    with eq have "y = ticks_from env p k 0 s" by simp
    with True show ?thesis by (intro exI [of _ 0]) simp
  next
    case False
    let ?t = "tick p (env k) s"
    show ?thesis
    proof (cases "loop_count_enable p \<and> loop_length p \<le> sint (loop_count ?t)")
      case True
      with False eq have "y = ticks_from env p k (Suc 0) s" by (simp add: Let_def)
      with False True show ?thesis by (intro exI [of _ "Suc 0"]) simp
    next
      case nb: False
      with False eq have l: "loop' errorFlag env p (Suc k) ?t = Some y"
        by (auto simp add: Let_def)
      from step.IH [OF l] obtain n where n: "y = ticks_from env p (Suc k) n ?t"
        "\<forall>i<n. \<not> errorFlag (Suc k + i)"
        "errorFlag (Suc k + n) \<or> (loop_count_enable p \<and> loop_length p \<le> sint (loop_count y))"
        by blast
      have "\<forall>i<Suc n. \<not> errorFlag (k + i)"
        using False n(2) by (auto simp add: less_Suc_eq_0_disj)
      with n(1,3) show ?thesis by (intro exI [of _ "Suc n"]) simp
    qed
  qed
qed

section \<open>The send buffer\<close>

lemma send_step_buffer: "send_buffer (send_step i e s) = []"
  by (simp add: send_step_def Let_def send_frame_eq)

lemma send_step_written:
  "written (send_step i e s) =
     written s @ encodeFrame (setSendDataFromROSBus (of_nat i) (callback i e (bus s)) (send_buffer s))"
  by (simp add: send_step_def Let_def send_frame_eq encodeFrame_eq)

lemma send_all_unfold: "send_all e s = send_step 2 e (send_step 1 e (send_step 0 e s))"
  by (simp add: send_all_def MAX_DATA_TYPE_def eval_nat_numeral)

lemma send_buffer_tick: "send_buffer (tick p e s) = []"
  by (simp add: tick_def Let_def send_all_unfold send_step_buffer)

lemma send_buffer_ticks_from: "send_buffer s = [] \<Longrightarrow> send_buffer (ticks_from env p j n s) = []"
  by (induction n arbitrary: j s) (simp_all add: send_buffer_tick)

lemma send_buffer_before_pack: "send_buffer (before_pack env p n i) = []"
proof (cases i)
  case 0
  then show ?thesis
    by (simp add: before_pack_def send_buffer_ticks_from initial_def)
next
  case (Suc m)
  then show ?thesis
    by (simp add: before_pack_def send_step_buffer)
qed

lemma before_pack_Suc:
  "before_pack env p n (Suc i) = send_step i (env n) (before_pack env p n i)"
  by (simp add: before_pack_def)

lemma before_pack_tick:
  "ticks_from env p 0 (Suc n) initial
     = (let s1 = before_pack env p n MAX_DATA_TYPE;
            looptime = looptime_of (tv_start (env n)) (tv_end (env n));
            s2 = (if looptime < microsecond p
                  then s1\<lparr>sleeps := sleeps s1 @ [microsecond p - looptime]\<rparr>
                  else s1)
        in s2\<lparr>loop_count := loop_count s2 + 1\<rparr>)"
  by (simp only: ticks_from_snoc add_0 tick_def send_all_def before_pack_def)

text \<open>
  Claim C10. After every frame the buffer is empty, whatever the state before. In a run
  from the initial state, the state before iteration 0 of a pass is the state the previous
  passes left, and the state before iteration \<open>i + 1\<close> is the one iteration \<open>i\<close> left; in all
  of them the buffer is empty when the packer is called, and the iteration puts on the wire
  exactly the frame of the bytes that this call of the packer produces from the globals as
  the callback just set them.
\<close>

theorem buffer_never_accumulates:
  "send_buffer (send_step i e s) = []
   \<and> before_pack env p n 0 = ticks_from env p 0 n initial
   \<and> before_pack env p n (Suc i) = send_step i (env n) (before_pack env p n i)
   \<and> send_buffer (before_pack env p n i) = []
   \<and> written (send_step i (env n) (before_pack env p n i))
       = written (before_pack env p n i)
         @ encodeFrame (setSendDataFromROSBus (of_nat i)
             (callback i (env n) (bus (before_pack env p n i))) [])"
proof -
  have "written (send_step i (env n) (before_pack env p n i))
       = written (before_pack env p n i)
         @ encodeFrame (setSendDataFromROSBus (of_nat i)
             (callback i (env n) (bus (before_pack env p n i))) [])"
    using send_step_written [of i "env n" "before_pack env p n i"]
    by (simp only: send_buffer_before_pack)
  then show ?thesis
    by (simp add: send_step_buffer send_buffer_before_pack before_pack_Suc) (simp add: before_pack_def)
qed


section \<open>Termination report\<close>

lemma bounded_positive:
  "loop_count_enable (setParameterFromCommandLine args) \<Longrightarrow>
     0 < loop_length (setParameterFromCommandLine args)"
  by (simp add: setParameterFromCommandLine_def Let_def split: if_splits)

lemma unbounded_length:
  "\<not> loop_count_enable (setParameterFromCommandLine args) \<Longrightarrow>
     loop_length (setParameterFromCommandLine args) = hz (setParameterFromCommandLine args)"
  by (simp add: setParameterFromCommandLine_def Let_def split: if_splits)

lemma configured_bound:
  "loop_count_enable (setParameterFromCommandLine args) = (2 \<le> length args \<and> 0 < args ! 1)"
  "loop_length (setParameterFromCommandLine args)
     = (if loop_count_enable (setParameterFromCommandLine args) then args ! 1
        else hz (setParameterFromCommandLine args))"
  by (auto simp add: setParameterFromCommandLine_def Let_def)

lemma main_stops:
  assumes "\<forall>i<n. \<not> errorFlag i" and "n < 2 ^ 31"
    and "(errorFlag n \<and> (loop_count_enable (setParameterFromCommandLine args)
                          \<longrightarrow> int n < loop_length (setParameterFromCommandLine args)))
         \<or> (loop_count_enable (setParameterFromCommandLine args)
            \<and> int n = loop_length (setParameterFromCommandLine args))"
  shows "main_loop errorFlag env (setParameterFromCommandLine args) 0 initial
         = Some (ticks_from env (setParameterFromCommandLine args) 0 n initial)"
proof -
  let ?p = "setParameterFromCommandLine args"
  have z: "loop_count initial = 0" by (simp add: initial_def)
  from assms(3) show ?thesis
  proof
    assume c: "errorFlag n \<and> (loop_count_enable ?p \<longrightarrow> int n < loop_length ?p)"
    show ?thesis
      by (rule main_loop_cancelled) (use assms(1,2) c z in simp_all)
  next
    assume b: "loop_count_enable ?p \<and> int n = loop_length ?p"
    then have "0 < n" using bounded_positive [of args] by simp
    then show ?thesis
      by (intro main_loop_bound) (use assms(1,2) b z in simp_all)
  qed
qed

lemma main_outcome:
  assumes "main args errorFlag env = Some out"
  shows "exit_status out = 0
       \<and> stderr out = (if sint (loop_count (final out)) < loop_length (setParameterFromCommandLine args)
                        then [diagnostic] else [])
       \<and> send_buffer (final out) = []
       \<and> (\<exists>n. loop_count (final out) = of_nat n \<and> (\<forall>i<n. \<not> errorFlag i))"
proof -
  let ?p = "setParameterFromCommandLine args"
  from assms obtain s where s: "main_loop errorFlag env ?p 0 initial = Some s"
    and out: "out = \<lparr>stderr = (if sint (loop_count s) < loop_length ?p then [diagnostic] else []),
                       exit_status = 0, final = s\<rparr>"
    by (auto simp add: main_def Let_def split: option.splits)
  from main_loop_reaches [OF s] obtain n where n: "s = ticks_from env ?p 0 n initial"
    "\<forall>i<n. \<not> errorFlag i"
    by auto
  have "loop_count s = of_nat n"
    by (simp add: n(1) loop_count_ticks_from initial_def)
  moreover have "send_buffer s = []"
    by (simp add: n(1) send_buffer_ticks_from initial_def)
  ultimately show ?thesis
    using out n(2) by auto
qed

text \<open>
  Claim C7, as the code has it, for a run of fewer than \<open>2^31\<close> passes. Suppose the loop
  condition reads the flag as unset at its first \<open>n\<close> tests, and then either reads it as set
  at test \<open>n\<close> (in bounded mode: with \<open>n\<close> below the bound), or the mode is bounded and
  \<open>n\<close> is the bound. Then the program ends after \<open>n\<close> passes with exit status 0, and it
  writes exactly one diagnostic line when \<open>n < loop_length\<close> and none otherwise. The mode is
  bounded exactly when there is a second argument and it is positive; \<open>loop_length\<close> is then
  that argument, the configured bound. In unbounded mode \<open>loop_length\<close> is the tick rate
  \<open>hz\<close>, so that the diagnostic is written there too when the loop is cancelled before
  \<open>hz\<close> passes.
\<close>

theorem termination_report:
  assumes "\<forall>i<n. \<not> errorFlag i" and "n < 2 ^ 31"
    and "(errorFlag n \<and> (loop_count_enable (setParameterFromCommandLine args)
                          \<longrightarrow> int n < loop_length (setParameterFromCommandLine args)))
         \<or> (loop_count_enable (setParameterFromCommandLine args)
            \<and> int n = loop_length (setParameterFromCommandLine args))"
  shows "\<exists>out. main args errorFlag env = Some out
           \<and> sint (loop_count (final out)) = int n
           \<and> exit_status out = 0
           \<and> stderr out = (if int n < loop_length (setParameterFromCommandLine args)
                            then [diagnostic] else [])
           \<and> loop_count_enable (setParameterFromCommandLine args)
               = (2 \<le> length args \<and> 0 < args ! 1)
           \<and> loop_length (setParameterFromCommandLine args)
               = (if loop_count_enable (setParameterFromCommandLine args) then args ! 1
                  else hz (setParameterFromCommandLine args))"
proof -
  let ?p = "setParameterFromCommandLine args"
  let ?s = "ticks_from env ?p 0 n initial"
  have s: "main_loop errorFlag env ?p 0 initial = Some ?s"
    by (rule main_stops [OF assms])
  have "loop_count ?s = of_nat n"
    by (simp add: loop_count_ticks_from initial_def)
  then have si: "sint (loop_count ?s) = int n"
    using sint_count [OF assms(2)] by simp
  let ?out = "\<lparr>stderr = (if sint (loop_count ?s) < loop_length ?p then [diagnostic] else []),
               exit_status = 0, final = ?s\<rparr>"
  have m: "main args errorFlag env = Some ?out"
    by (simp add: main_def Let_def s)
  have "main args errorFlag env = Some ?out
           \<and> sint (loop_count (final ?out)) = int n
           \<and> exit_status ?out = 0
           \<and> stderr ?out = (if int n < loop_length ?p then [diagnostic] else [])"
    using m si by simp
  then show ?thesis
    using configured_bound [of args] by blast
qed

text \<open>
  C7 with arguments \<open>120 3\<close>: cancelled after two passes the program writes the diagnostic;
  never cancelled it stops at the bound and writes nothing; the exit status is 0 both times.
\<close>

theorem termination_report_witness:
  "map_option stderr (main [120, 3] (\<lambda>k. 2 \<le> k) env_sample) = Some [diagnostic]
   \<and> map_option exit_status (main [120, 3] (\<lambda>k. 2 \<le> k) env_sample) = Some 0
   \<and> map_option stderr (main [120, 3] (\<lambda>k. False) env_sample) = Some []
   \<and> map_option exit_status (main [120, 3] (\<lambda>k. False) env_sample) = Some 0
   \<and> loop_count_enable (setParameterFromCommandLine [120, 3])
   \<and> loop_length (setParameterFromCommandLine [120, 3]) = 3"
proof -
  have p: "setParameterFromCommandLine [120, 3] = \<lparr>hz = 120, loop_length = 3, loop_count_enable = True\<rparr>"
    by (simp add: setParameterFromCommandLine_def)
  have a: "\<forall>i<2. \<not> (\<lambda>k::nat. 2 \<le> k) i" by simp
  have b: "\<forall>i<3. \<not> (\<lambda>k::nat. False) i" by simp
  have a': "(2::nat) < 2 ^ 31" and b': "(3::nat) < 2 ^ 31" by simp_all
  from termination_report [of 2 "\<lambda>k. 2 \<le> k" "[120, 3]" env_sample, OF a a']
  have 1: "map_option stderr (main [120, 3] (\<lambda>k. 2 \<le> k) env_sample) = Some [diagnostic]
     \<and> map_option exit_status (main [120, 3] (\<lambda>k. 2 \<le> k) env_sample) = Some 0"
    by (auto simp add: p)
  from termination_report [of 3 "\<lambda>k. False" "[120, 3]" env_sample, OF b b']
  have 2: "map_option stderr (main [120, 3] (\<lambda>k. False) env_sample) = Some []
     \<and> map_option exit_status (main [120, 3] (\<lambda>k. False) env_sample) = Some 0"
    by (auto simp add: p)
  from 1 2 show ?thesis by (simp add: p)
qed

text \<open>
  C7 as the specification words it fails in unbounded mode: without arguments, cancelled
  after five passes, the program writes the diagnostic.
\<close>

theorem unbounded_diagnostic_counterexample:
  "\<not> loop_count_enable (setParameterFromCommandLine [])
   \<and> map_option stderr (main [] (\<lambda>k. 5 \<le> k) env_sample) = Some [diagnostic]
   \<and> map_option exit_status (main [] (\<lambda>k. 5 \<le> k) env_sample) = Some 0"
proof -
  have p: "setParameterFromCommandLine [] = \<lparr>hz = 120, loop_length = 120, loop_count_enable = False\<rparr>"
    by (simp add: setParameterFromCommandLine_def HZ_def)
  have a: "\<forall>i<5. \<not> (\<lambda>k::nat. 5 \<le> k) i" by simp
  have s: "main_loop (\<lambda>k. 5 \<le> k) env_sample (setParameterFromCommandLine []) 0 initial
        = Some (ticks_from env_sample (setParameterFromCommandLine []) 0 5 initial)"
    by (rule main_stops [OF a]) (simp_all add: p)
  have "sint (loop_count (ticks_from env_sample (setParameterFromCommandLine []) 0 5 initial)) = 5"
    using sint_count [of 5] by (simp add: loop_count_ticks_from initial_def)
  with s show ?thesis
    by (simp add: main_def Let_def p)
qed


section \<open>Elapsed time\<close>

text \<open>
  Claim C8 asks for the full duration between the two clock readings. The code subtracts
  the microsecond components only. For a pass that starts at 10.999000 s and ends at
  11.001000 s the duration is 2000 microseconds and \<open>looptime\<close> is \<open>-998000\<close>; at 120 Hz the
  pass then sleeps 1006333 microseconds instead of 6333.
\<close>

theorem looptime_second_boundary:
  "elapsed_micros \<lparr>tv_sec = 10, tv_usec = 999000\<rparr> \<lparr>tv_sec = 11, tv_usec = 1000\<rparr> = 2000
   \<and> looptime_of \<lparr>tv_sec = 10, tv_usec = 999000\<rparr> \<lparr>tv_sec = 11, tv_usec = 1000\<rparr> = - 998000
   \<and> sleeps (tick (setParameterFromCommandLine []) (env_sample 0) initial) = [1006333]"
  by (simp add: elapsed_micros_def looptime_of_def tick_def Let_def microsecond_def
      setParameterFromCommandLine_def HZ_def env_sample_def send_all_unfold send_step_def
      send_frame_eq initial_def)

end
